theory Spec2Isabelle
  imports Main
begin

section \<open>The asynchronous greeter server (greeter_async_server.cc)\<close>

text \<open>
  The program is a single-threaded dispatcher over a gRPC completion queue. Its state is
  the set of heap-allocated call objects (\<open>HelloCallData\<close>, \<open>ByeCallData\<close>), the two
  smart pointers of the one \<open>ServerImpl\<close> object, and the calls it has made into the gRPC
  runtime. The runtime itself is not part of the program: what it does is an input
  (the results of \<open>cq_->Next\<close>), and what the program asks of it is recorded in a trace.
\<close>

subsection \<open>Call objects\<close>

type_synonym addr = nat

text \<open>\<open>enum CallStatus { PROCESS, FINISH }\<close> of \<open>CallDataBase\<close>.\<close>

datatype CallStatus = PROCESS | FINISH

text \<open>The two concrete classes derived from \<open>CallDataBase\<close>: the dynamic type of an object,
  which selects the override of the virtual \<open>Process\<close>.\<close>

datatype call_type = HelloCallData | ByeCallData

text \<open>
  The fields of a call object. \<open>status\<close> is the member \<open>status_\<close>, \<open>request_name\<close> is
  \<open>request_.name()\<close> and \<open>reply_message\<close> is \<open>reply_.message()\<close>. The members \<open>service_\<close>
  and \<open>cq_\<close> of \<open>CallDataBase\<close> are left implicit: the program has one service and one
  queue, and every constructor call passes these two on unchanged. \<open>ctx_\<close> and
  \<open>responder_\<close> belong to the runtime; the program only hands them over.
\<close>

record CallData =
  status :: CallStatus
  dyn_type :: call_type
  request_name :: string
  reply_message :: string

subsection \<open>Calls into the gRPC runtime\<close>

datatype reply = HelloReply string | GoodbyeReply string

datatype Status = OK

datatype credentials = InsecureServerCredentials

text \<open>
  One constructor per runtime entry point the program calls. \<open>RequestSayHello tag\<close> and
  \<open>RequestSayGoodbye tag\<close> register the object at \<open>tag\<close> as the acceptor of the next call of
  the method; \<open>Finish obj r s tag\<close> is \<open>responder_.Finish(reply_, s, tag)\<close> on the responder of
  the object at \<open>obj\<close>; \<open>Cout\<close> is the text written to \<open>std::cout\<close>.
\<close>

datatype effect =
    AddListeningPort string credentials
  | RegisterService
  | AddCompletionQueue
  | BuildAndStart
  | Cout string
  | RequestSayHello addr
  | RequestSayGoodbye addr
  | Finish addr reply Status addr
  | Server_Shutdown
  | CompletionQueue_Shutdown

subsection \<open>Program state\<close>

datatype Server = Server

datatype ServerCompletionQueue = ServerCompletionQueue

text \<open>
  \<open>heap\<close> holds the live call objects, and \<open>next_addr\<close> is the address \<open>operator new\<close>
  returns when it is called next. In the runs of \<open>main\<close> below the allocator hands out one
  address after the other and never the same twice; the runs of the subsection on
  \<open>operator new\<close> as an input leave the choice to the environment. \<open>cq\<close> and
  \<open>server\<close> are the \<open>std::unique_ptr\<close> members \<open>cq_\<close> and \<open>server_\<close> of \<open>ServerImpl\<close>
  (\<open>None\<close> is the null pointer).
  \<open>trace\<close> lists the runtime calls made so far, oldest first.
\<close>

record world =
  heap :: "addr \<Rightarrow> CallData option"
  next_addr :: addr
  cq :: "ServerCompletionQueue option"
  server :: "Server option"
  trace :: "effect list"

text \<open>How a function of the program can end: it returns, it stops in a fault, or it is
  still blocked in \<open>cq_->Next\<close> when the recorded input ends.\<close>

datatype assertion = Assert_Next | Assert_ok | Assert_status_FINISH

datatype fault = Abort assertion | Dangling_tag | Null_pointer

datatype 'a outcome = Returned 'a world | Failed fault world | Blocked world

fun final_world :: "'a outcome \<Rightarrow> world" where
  "final_world (Returned v w) = w"
| "final_world (Failed f w) = w"
| "final_world (Blocked w) = w"

definition emit :: "effect \<Rightarrow> world \<Rightarrow> world" where
  "emit e w = w\<lparr>trace := trace w @ [e]\<rparr>"

subsection \<open>Constructors\<close>

text \<open>\<open>CallDataBase(service, cq)\<close>: \<open>status_(PROCESS)\<close>; the request and the reply start as
  empty protobuf messages.\<close>

definition CallDataBase :: "call_type \<Rightarrow> CallData" where
  "CallDataBase c = \<lparr>status = PROCESS, dyn_type = c, request_name = [], reply_message = []\<rparr>"

text \<open>\<open>new HelloCallData(service, cq)\<close>: allocate, run the base constructor, then
  \<open>service_->RequestSayHello(&ctx_, &request_, &responder_, cq_, cq_, this)\<close>.\<close>

definition new_HelloCallData :: "world \<Rightarrow> addr \<times> world" where
  "new_HelloCallData w =
     (let this = next_addr w;
          w1 = w\<lparr>heap := (heap w)(this \<mapsto> CallDataBase HelloCallData), next_addr := Suc this\<rparr>
      in (this, emit (RequestSayHello this) w1))"

definition new_ByeCallData :: "world \<Rightarrow> addr \<times> world" where
  "new_ByeCallData w =
     (let this = next_addr w;
          w1 = w\<lparr>heap := (heap w)(this \<mapsto> CallDataBase ByeCallData), next_addr := Suc this\<rparr>
      in (this, emit (RequestSayGoodbye this) w1))"

subsection \<open>\<open>Process\<close> and \<open>Proceed\<close>\<close>

text \<open>\<open>HelloCallData::Process\<close>: spawn the sibling, build the reply from the request, hand
  it to the runtime with \<open>this\<close> as the tag.\<close>

definition HelloCallData_Process :: "addr \<Rightarrow> world \<Rightarrow> fault + world" where
  "HelloCallData_Process this w =
     (let w1 = snd (new_HelloCallData w) in
      case heap w1 this of
        None \<Rightarrow> Inl Dangling_tag
      | Some obj \<Rightarrow>
          let prefix = ''Hello '';
              obj' = obj\<lparr>reply_message := prefix @ request_name obj\<rparr>;
              w2 = w1\<lparr>heap := (heap w1)(this \<mapsto> obj')\<rparr>
          in Inr (emit (Finish this (HelloReply (reply_message obj')) OK this) w2))"

definition ByeCallData_Process :: "addr \<Rightarrow> world \<Rightarrow> fault + world" where
  "ByeCallData_Process this w =
     (let w1 = snd (new_ByeCallData w) in
      case heap w1 this of
        None \<Rightarrow> Inl Dangling_tag
      | Some obj \<Rightarrow>
          let prefix = ''Goodbye '';
              obj' = obj\<lparr>reply_message := prefix @ request_name obj\<rparr>;
              w2 = w1\<lparr>heap := (heap w1)(this \<mapsto> obj')\<rparr>
          in Inr (emit (Finish this (GoodbyeReply (reply_message obj')) OK this) w2))"

text \<open>The virtual call \<open>Process()\<close>: dispatch on the dynamic type of \<open>*this\<close>.\<close>

definition Process :: "addr \<Rightarrow> world \<Rightarrow> fault + world" where
  "Process this w =
     (case heap w this of
        None \<Rightarrow> Inl Dangling_tag
      | Some obj \<Rightarrow>
          (case dyn_type obj of
             HelloCallData \<Rightarrow> HelloCallData_Process this w
           | ByeCallData \<Rightarrow> ByeCallData_Process this w))"

text \<open>\<open>CallDataBase::Proceed\<close>. Calling it through a pointer to no live object is undefined
  behaviour, reported as \<open>Dangling_tag\<close>; \<open>delete this\<close> removes the object from the heap.\<close>

definition Proceed :: "addr \<Rightarrow> world \<Rightarrow> fault + world" where
  "Proceed this w =
     (case heap w this of
        None \<Rightarrow> Inl Dangling_tag
      | Some obj \<Rightarrow>
          if status obj = PROCESS then
            Process this (w\<lparr>heap := (heap w)(this \<mapsto> obj\<lparr>status := FINISH\<rparr>)\<rparr>)
          else if status obj = FINISH then
            Inr (w\<lparr>heap := (heap w)(this := None)\<rparr>)
          else Inl (Abort Assert_status_FINISH))"

subsection \<open>The completion queue and the dispatcher loop\<close>

text \<open>
  One return of \<open>bool Next(void** tag, bool* ok)\<close>: the return value (\<open>False\<close> when the queue
  is shutting down), the tag and the success flag. \<open>received\<close> lists the requests the
  runtime has parsed into the \<open>request_\<close> buffers of registered objects while the call was
  blocked (object address, name field).
\<close>

record cq_next =
  received :: "(addr \<times> string) list"
  ret :: bool
  tag :: addr
  ok :: bool

fun deliver :: "(addr \<times> string) list \<Rightarrow> world \<Rightarrow> world" where
  "deliver [] w = w"
| "deliver ((a, n) # rs) w =
     deliver rs
       (case heap w a of
          None \<Rightarrow> w
        | Some obj \<Rightarrow> w\<lparr>heap := (heap w)(a \<mapsto> obj\<lparr>request_name := n\<rparr>)\<rparr>)"

text \<open>
  The \<open>while (true)\<close> loop of \<open>HandleRpcs\<close>, over the recorded results of \<open>Next\<close>. Every
  round starts with the call \<open>cq_->Next\<close>, through the pointer \<open>cq_\<close>; when the recorded
  results are used up, that call does not come back. The loop has no \<open>break\<close> and no
  \<open>return\<close>.
\<close>

fun HandleRpcs_loop :: "cq_next list \<Rightarrow> world \<Rightarrow> unit outcome" where
  "HandleRpcs_loop [] w =
     (case cq w of
        None \<Rightarrow> Failed Null_pointer w
      | Some q \<Rightarrow> Blocked w)"
| "HandleRpcs_loop (e # es) w =
     (case cq w of
        None \<Rightarrow> Failed Null_pointer w
      | Some q \<Rightarrow>
          let w1 = deliver (received e) w in
          if \<not> ret e then Failed (Abort Assert_Next) w1
          else if \<not> ok e then Failed (Abort Assert_ok) w1
          else (case Proceed (tag e) w1 of
                  Inl f \<Rightarrow> Failed f w1
                | Inr w2 \<Rightarrow> HandleRpcs_loop es w2))"

definition HandleRpcs :: "cq_next list \<Rightarrow> world \<Rightarrow> unit outcome" where
  "HandleRpcs ins w =
     (let w1 = snd (new_HelloCallData w);
          w2 = snd (new_ByeCallData w1)
      in HandleRpcs_loop ins w2)"

subsection \<open>\<open>ServerImpl\<close> and \<open>main\<close>\<close>

text \<open>\<open>ServerImpl::Run\<close>. The builder's calls are taken to succeed: \<open>AddCompletionQueue\<close> and
  \<open>BuildAndStart\<close> return objects, which the two smart pointers then hold.\<close>

definition Run :: "cq_next list \<Rightarrow> world \<Rightarrow> unit outcome" where
  "Run ins w =
     (let server_address = ''0.0.0.0:50051'';
          w1 = emit (AddListeningPort server_address InsecureServerCredentials) w;
          w2 = emit RegisterService w1;
          w3 = (emit AddCompletionQueue w2)\<lparr>cq := Some ServerCompletionQueue\<rparr>;
          w4 = (emit BuildAndStart w3)\<lparr>server := Some Server\<rparr>;
          w5 = emit (Cout (''Server listening on '' @ server_address @ [CHR 0x0A])) w4
      in HandleRpcs ins w5)"

text \<open>\<open>~ServerImpl\<close>: \<open>server_->Shutdown()\<close>, then \<open>cq_->Shutdown()\<close>.\<close>

definition ServerImpl_destructor :: "world \<Rightarrow> fault + world" where
  "ServerImpl_destructor w =
     (case server w of
        None \<Rightarrow> Inl Null_pointer
      | Some s \<Rightarrow>
          let w1 = emit Server_Shutdown w in
          (case cq w1 of
             None \<Rightarrow> Inl Null_pointer
           | Some q \<Rightarrow> Inr (emit CompletionQueue_Shutdown w1)))"

text \<open>The state in which \<open>main\<close> starts: nothing allocated, and \<open>ServerImpl server;\<close> leaves
  both smart pointers null.\<close>

definition world0 :: world where
  "world0 = \<lparr>heap = (\<lambda>a. None), next_addr = 0, cq = None, server = None, trace = []\<rparr>"

text \<open>\<open>main(argc, argv)\<close>: run the server; if \<open>Run\<close> returns, \<open>return 0\<close> and the destructor of
  \<open>server\<close> runs at the end of the scope.\<close>

definition main :: "int \<Rightarrow> string list \<Rightarrow> cq_next list \<Rightarrow> int outcome" where
  "main argc argv ins =
     (case Run ins world0 of
        Returned u w \<Rightarrow>
          (case ServerImpl_destructor w of
             Inl f \<Rightarrow> Failed f w
           | Inr w' \<Rightarrow> Returned 0 w')
      | Failed f w \<Rightarrow> Failed f w
      | Blocked w \<Rightarrow> Blocked w)"


subsection \<open>The contract of the specification, and observations on a state\<close>

text \<open>
  The specification describes \<open>Proceed\<close> as \<open>advance\<close>, which returns an action. In the program
  \<open>Proceed\<close> returns nothing and executes \<open>delete this\<close> itself: \<open>Release\<close> is the case where
  the object is gone after the call, \<open>Continue\<close> the case where it is still allocated. The
  flag \<open>event_ok\<close> of the specification is not a parameter of \<open>Proceed\<close>; the dispatcher
  tests it before the call.
\<close>

datatype Action = Continue | Release

definition advance :: "addr \<Rightarrow> world \<Rightarrow> fault + (Action \<times> world)" where
  "advance this w =
     (case Proceed this w of
        Inl f \<Rightarrow> Inl f
      | Inr w' \<Rightarrow> Inr (if heap w' this = None then Release else Continue, w'))"

text \<open>The allocator's invariant: nothing is allocated at or beyond \<open>next_addr\<close>.\<close>

definition heap_wf :: "world \<Rightarrow> bool" where
  "heap_wf w = (\<forall>a. next_addr w \<le> a \<longrightarrow> heap w a = None)"

text \<open>What differs between the two classes, collected from their constructors and their
  \<open>Process\<close> overrides: the registration call, the reply text and the reply message.\<close>

definition request_call :: "call_type \<Rightarrow> addr \<Rightarrow> effect" where
  "request_call c a =
     (case c of HelloCallData \<Rightarrow> RequestSayHello a | ByeCallData \<Rightarrow> RequestSayGoodbye a)"

definition response_text :: "call_type \<Rightarrow> string \<Rightarrow> string" where
  "response_text c n =
     (case c of HelloCallData \<Rightarrow> ''Hello '' @ n | ByeCallData \<Rightarrow> ''Goodbye '' @ n)"

definition response_msg :: "call_type \<Rightarrow> string \<Rightarrow> reply" where
  "response_msg c n =
     (case c of
        HelloCallData \<Rightarrow> HelloReply (''Hello '' @ n)
      | ByeCallData \<Rightarrow> GoodbyeReply (''Goodbye '' @ n))"



definition has_acceptor :: "call_type \<Rightarrow> world \<Rightarrow> bool" where
  "has_acceptor c w \<longleftrightarrow>
     (\<exists>a. map_option dyn_type (heap w a) = Some c
         \<and> map_option status (heap w a) = Some PROCESS)"

fun fault_of :: "'a outcome \<Rightarrow> fault option" where
  "fault_of (Returned v w) = None"
| "fault_of (Failed f w) = Some f"
| "fault_of (Blocked w) = None"

fun returned :: "'a outcome \<Rightarrow> bool" where
  "returned (Returned v w) = True"
| "returned (Failed f w) = False"
| "returned (Blocked w) = False"

text \<open>The listening ports a trace has asked the builder for.\<close>

fun listening_ports :: "effect list \<Rightarrow> (string \<times> credentials) list" where
  "listening_ports [] = []"
| "listening_ports (AddListeningPort a c # es) = (a, c) # listening_ports es"
| "listening_ports (e # es) = listening_ports es"

subsection \<open>Sample runs\<close>

text \<open>A completed event for tag \<open>t\<close>, before which the runtime has stored the requests \<open>r\<close>;
  and the result of \<open>Next\<close> on a queue that is shutting down.\<close>

definition event :: "(addr \<times> string) list \<Rightarrow> addr \<Rightarrow> cq_next" where
  "event r t = \<lparr>received = r, ret = True, tag = t, ok = True\<rparr>"

definition failed_event :: "addr \<Rightarrow> cq_next" where
  "failed_event t = \<lparr>received = [], ret = True, tag = t, ok = False\<rparr>"

definition shutdown :: cq_next where
  "shutdown = \<lparr>received = [], ret = False, tag = 0, ok = False\<rparr>"

text \<open>The state once the server waits for its first event; the same state after the
  runtime has stored a greeting request for \<open>World\<close> in object 0 and a farewell request for
  \<open>World\<close> in object 1; and the state after the greeting call has been processed.\<close>

definition world_started :: world where
  "world_started = final_world (main 1 [''greeter_async_server''] [])"


definition world_finishing :: world where
  "world_finishing = final_world (main 1 [''greeter_async_server''] [event [(0, ''World'')] 0])"



subsection \<open>\<open>operator new\<close> as an input\<close>

text \<open>
  The tag of an event is the address of an object, and \<open>operator new\<close> may hand out an address
  again once the object that stood there has been deleted. In the runs of this subsection
  the allocator is part of the environment, like the queue: every round of the loop comes
  with the address \<open>operator new\<close> returns if it is called in that round (\<open>Proceed\<close> calls it
  at most once), and that address is stored in \<open>next_addr\<close> before the round. The loop body is
  the one of \<open>HandleRpcs_loop\<close>, and every run of \<open>HandleRpcs_loop\<close> is a run of this loop: the
  one in which the allocator answers as \<open>with_next_addr\<close> says.
\<close>

fun HandleRpcs_loop_at :: "(addr \<times> cq_next) list \<Rightarrow> world \<Rightarrow> unit outcome" where
  "HandleRpcs_loop_at [] w =
     (case cq w of
        None \<Rightarrow> Failed Null_pointer w
      | Some q \<Rightarrow> Blocked w)"
| "HandleRpcs_loop_at ((n, e) # es) w =
     (case cq w of
        None \<Rightarrow> Failed Null_pointer w
      | Some q \<Rightarrow>
          let w1 = (deliver (received e) w)\<lparr>next_addr := n\<rparr> in
          if \<not> ret e then Failed (Abort Assert_Next) w1
          else if \<not> ok e then Failed (Abort Assert_ok) w1
          else (case Proceed (tag e) w1 of
                  Inl f \<Rightarrow> Failed f w1
                | Inr w2 \<Rightarrow> HandleRpcs_loop_at es w2))"

fun with_next_addr :: "cq_next list \<Rightarrow> world \<Rightarrow> (addr \<times> cq_next) list" where
  "with_next_addr [] w = []"
| "with_next_addr (e # es) w =
     (next_addr w, e) # with_next_addr es (final_world (HandleRpcs_loop [e] w))"

text \<open>\<open>HandleRpcs\<close> with the two initial objects at the addresses \<open>a0\<close> and \<open>a1\<close>.\<close>

definition HandleRpcs_at ::
    "addr \<Rightarrow> addr \<Rightarrow> (addr \<times> cq_next) list \<Rightarrow> world \<Rightarrow> unit outcome" where
  "HandleRpcs_at a0 a1 ins w =
     (let w1 = snd (new_HelloCallData (w\<lparr>next_addr := a0\<rparr>));
          w2 = snd (new_ByeCallData (w1\<lparr>next_addr := a1\<rparr>))
      in HandleRpcs_loop_at ins w2)"

text \<open>The state in which \<open>Run\<close> calls \<open>HandleRpcs\<close>, and the state in which the server then
  waits for its first event.\<close>

definition world_built :: world where
  "world_built =
     \<lparr>heap = (\<lambda>a. None), next_addr = 0,
      cq = Some ServerCompletionQueue, server = Some Server,
      trace = [AddListeningPort ''0.0.0.0:50051'' InsecureServerCredentials, RegisterService,
               AddCompletionQueue, BuildAndStart,
               Cout (''Server listening on 0.0.0.0:50051'' @ [CHR 0x0A])]\<rparr>"

definition world_started_at :: "addr \<Rightarrow> addr \<Rightarrow> world" where
  "world_started_at a0 a1 = final_world (HandleRpcs_at a0 a1 [] world_built)"

text \<open>
  What the environment owes the program, round by round: the queue is not shut down and the
  event is a success; the tag is the address of a live object (the runtime hands back a tag
  only for an operation that the program has requested with it and that has not completed
  before, and a deleted object has none); and \<open>operator new\<close> answers with an address at
  which no object is live. The rounds that follow start in the state this round ends in.
\<close>

fun disciplined :: "(addr \<times> cq_next) list \<Rightarrow> world \<Rightarrow> bool" where
  "disciplined [] w = True"
| "disciplined ((n, e) # es) w =
     (ret e \<and> ok e \<and> heap w (tag e) \<noteq> None \<and> heap w n = None
      \<and> disciplined es (final_world (HandleRpcs_loop_at [(n, e)] w)))"

text \<open>The number of objects constructed at an address (each constructor registers \<open>this\<close>
  once), and the number of operations requested from the runtime with an address as the
  tag, both read off the trace.\<close>

fun constructed :: "addr \<Rightarrow> effect list \<Rightarrow> nat" where
  "constructed a [] = 0"
| "constructed a (RequestSayHello b # es) = (if a = b then 1 else 0) + constructed a es"
| "constructed a (RequestSayGoodbye b # es) = (if a = b then 1 else 0) + constructed a es"
| "constructed a (e # es) = constructed a es"

fun issued :: "addr \<Rightarrow> effect list \<Rightarrow> nat" where
  "issued a [] = 0"
| "issued a (RequestSayHello b # es) = (if a = b then 1 else 0) + issued a es"
| "issued a (RequestSayGoodbye b # es) = (if a = b then 1 else 0) + issued a es"
| "issued a (Finish c r s b # es) = (if a = b then 1 else 0) + issued a es"
| "issued a (e # es) = issued a es"

text \<open>The calls of \<open>Proceed\<close> the object at an address has still to receive before it is
  released: two in state \<open>PROCESS\<close>, one in state \<open>FINISH\<close>, none where no object is live.\<close>

fun due_of :: "CallStatus option \<Rightarrow> nat" where
  "due_of None = 0"
| "due_of (Some PROCESS) = 2"
| "due_of (Some FINISH) = 1"

definition calls_due :: "world \<Rightarrow> addr \<Rightarrow> nat" where
  "calls_due w a = due_of (map_option status (heap w a))"

definition live :: "world \<Rightarrow> addr \<Rightarrow> nat" where
  "live w a = (if heap w a = None then 0 else 1)"

text \<open>
  A run that uses address 0 twice. The greeting object at 0 is served and released (sibling
  at 2); the object at 2 is served and its sibling is constructed at the freed address 0; a
  farewell call is served at 1 (sibling at 3); then the second object at 0 is served
  (sibling at 4).
\<close>

definition reuse_run :: "(addr \<times> cq_next) list" where
  "reuse_run =
     [(2, event [(0, ''World'')] 0), (3, event [] 0), (0, event [(2, ''Again'')] 2),
      (3, event [(1, ''World'')] 1), (4, event [(0, ''Third'')] 0)]"

section \<open>Properties\<close>

subsection \<open>What the runtime's writes leave alone\<close>

lemma deliver_fields [simp]:
  "next_addr (deliver r w) = next_addr w"
  "trace (deliver r w) = trace w"
  "cq (deliver r w) = cq w"
  "server (deliver r w) = server w"
  by (induction r w rule: deliver.induct; simp split: option.splits)+

lemma deliver_heap_None [simp]: "heap (deliver r w) a = None \<longleftrightarrow> heap w a = None"
  by (induction r w rule: deliver.induct) (auto split: option.splits)

lemma deliver_status [simp]:
  "map_option status (heap (deliver r w) a) = map_option status (heap w a)"
  by (induction r w rule: deliver.induct) (auto split: option.splits)

lemma deliver_dyn_type [simp]:
  "map_option dyn_type (heap (deliver r w) a) = map_option dyn_type (heap w a)"
  by (induction r w rule: deliver.induct) (auto split: option.splits)

lemma heap_wf_deliver [simp]: "heap_wf (deliver r w) = heap_wf w"
  by (simp add: heap_wf_def)

lemma has_acceptor_deliver [simp]: "has_acceptor c (deliver r w) = has_acceptor c w"
  by (simp add: has_acceptor_def)

subsection \<open>One call of \<open>Proceed\<close>\<close>

lemmas Process_defs = Process_def HelloCallData_Process_def ByeCallData_Process_def
  new_HelloCallData_def new_ByeCallData_def emit_def Let_def

lemma Proceed_PROCESS_Hello:
  assumes "heap w this = Some obj" and "status obj = PROCESS"
    and "dyn_type obj = HelloCallData" and "this \<noteq> next_addr w"
  shows "Proceed this w =
     Inr (w\<lparr>heap := (heap w)(next_addr w \<mapsto> CallDataBase HelloCallData,
                this \<mapsto> obj\<lparr>status := FINISH, reply_message := ''Hello '' @ request_name obj\<rparr>),
            next_addr := Suc (next_addr w),
            trace := trace w @ [RequestSayHello (next_addr w),
              Finish this (HelloReply (''Hello '' @ request_name obj)) OK this]\<rparr>)"
  using assms by (simp add: Proceed_def Process_defs fun_upd_twist)

lemma Proceed_PROCESS_Bye:
  assumes "heap w this = Some obj" and "status obj = PROCESS"
    and "dyn_type obj = ByeCallData" and "this \<noteq> next_addr w"
  shows "Proceed this w =
     Inr (w\<lparr>heap := (heap w)(next_addr w \<mapsto> CallDataBase ByeCallData,
                this \<mapsto> obj\<lparr>status := FINISH, reply_message := ''Goodbye '' @ request_name obj\<rparr>),
            next_addr := Suc (next_addr w),
            trace := trace w @ [RequestSayGoodbye (next_addr w),
              Finish this (GoodbyeReply (''Goodbye '' @ request_name obj)) OK this]\<rparr>)"
  using assms by (simp add: Proceed_def Process_defs fun_upd_twist)

lemma Proceed_PROCESS:
  assumes "heap w this = Some obj" and "status obj = PROCESS" and "this \<noteq> next_addr w"
  shows "Proceed this w =
     Inr (w\<lparr>heap := (heap w)(next_addr w \<mapsto> CallDataBase (dyn_type obj),
                this \<mapsto> obj\<lparr>status := FINISH,
                  reply_message := response_text (dyn_type obj) (request_name obj)\<rparr>),
            next_addr := Suc (next_addr w),
            trace := trace w @ [request_call (dyn_type obj) (next_addr w),
              Finish this (response_msg (dyn_type obj) (request_name obj)) OK this]\<rparr>)"
proof (cases "dyn_type obj")
  case HelloCallData
  with assms show ?thesis
    by (simp add: Proceed_PROCESS_Hello request_call_def response_text_def response_msg_def)
next
  case ByeCallData
  with assms show ?thesis
    by (simp add: Proceed_PROCESS_Bye request_call_def response_text_def response_msg_def)
qed

lemma Proceed_FINISH:
  assumes "heap w this = Some obj" and "status obj = FINISH"
  shows "Proceed this w = Inr (w\<lparr>heap := (heap w)(this := None)\<rparr>)"
  using assms by (simp add: Proceed_def)


text \<open>The two ways in which \<open>Proceed\<close> succeeds.\<close>

lemma Proceed_cases [consumes 1, case_names process finish]:
  assumes "Proceed this w = Inr w'"
  obtains obj where "heap w this = Some obj" and "status obj = PROCESS"
  | obj where "heap w this = Some obj" and "status obj = FINISH"
      and "w' = w\<lparr>heap := (heap w)(this := None)\<rparr>"
proof (cases "heap w this")
  case None
  with assms show ?thesis by (simp add: Proceed_def)
next
  case (Some obj)
  show ?thesis
  proof (cases "status obj")
    case PROCESS
    with Some that(1) show ?thesis by blast
  next
    case FINISH
    with Some assms have "w' = w\<lparr>heap := (heap w)(this := None)\<rparr>"
      by (simp add: Proceed_def)
    with Some FINISH that(2) show ?thesis by blast
  qed
qed




lemma Proceed_released:
  assumes "Proceed this w = Inr w'" and "heap w a = Some old" and "heap w' a = None"
  shows "a = this \<and> status old = FINISH"
  using assms(1)
proof (cases rule: Proceed_cases)
  case (process obj)
  with assms(1,2) have "heap w' a \<noteq> None"
    by (cases "dyn_type obj") (auto simp: Proceed_def Process_defs split: if_splits)
  with assms(3) show ?thesis by simp
next
  case (finish obj)
  with assms(2,3) show ?thesis
    by (auto split: if_splits)
qed

lemma listening_ports_append [simp]:
  "listening_ports (xs @ ys) = listening_ports xs @ listening_ports ys"
  by (induction xs rule: listening_ports.induct) simp_all

lemma Proceed_listening_ports:
  assumes "Proceed this w = Inr w'"
  shows "listening_ports (trace w') = listening_ports (trace w)"
  using assms
proof (cases rule: Proceed_cases)
  case (process obj)
  with assms show ?thesis
    by (cases "dyn_type obj") (auto simp: Proceed_def Process_defs split: if_splits)
next
  case (finish obj)
  then show ?thesis by simp
qed

subsection \<open>The loop\<close>

lemma loop_Cons:
  "HandleRpcs_loop (e # es) w =
     (case cq w of
        None \<Rightarrow> Failed Null_pointer w
      | Some q \<Rightarrow>
          if \<not> ret e then Failed (Abort Assert_Next) (deliver (received e) w)
          else if \<not> ok e then Failed (Abort Assert_ok) (deliver (received e) w)
          else (case Proceed (tag e) (deliver (received e) w) of
                  Inl f \<Rightarrow> Failed f (deliver (received e) w)
                | Inr w2 \<Rightarrow> HandleRpcs_loop es w2))"
  by (cases "cq w") (simp_all add: Let_def)

lemma final_world_loop_Nil [simp]: "final_world (HandleRpcs_loop [] w) = w"
  by (simp split: option.splits)

lemma loop_Nil_Blocked [simp]:
  "HandleRpcs_loop [] w = Blocked w' \<longleftrightarrow> w' = w \<and> cq w \<noteq> None"
  by (auto split: option.splits)

text \<open>A round of the loop that goes on to the next one has called \<open>Proceed\<close> on the tag.\<close>

lemma loop_Cons_Blocked:
  assumes "HandleRpcs_loop (e # es) w = Blocked w'"
  obtains w2 where "Proceed (tag e) (deliver (received e) w) = Inr w2"
    and "HandleRpcs_loop es w2 = Blocked w'" and "cq w \<noteq> None" and "ret e" and "ok e"
  using assms
  by (auto simp: loop_Cons simp del: HandleRpcs_loop.simps
      split: option.splits if_splits sum.splits)

lemma loop_never_returns: "HandleRpcs_loop ins w \<noteq> Returned v w'"
  by (induction ins arbitrary: w)
    (auto simp: loop_Cons simp del: HandleRpcs_loop.simps(2)
      split: option.splits sum.splits if_splits)



lemma loop_listening_ports:
  "listening_ports (trace (final_world (HandleRpcs_loop ins w))) = listening_ports (trace w)"
proof (induction ins arbitrary: w)
  case Nil
  show ?case by (simp del: HandleRpcs_loop.simps)
next
  case (Cons e es)
  show ?case
  proof (cases "Proceed (tag e) (deliver (received e) w)")
    case (Inl f)
    then show ?thesis
      by (simp add: loop_Cons del: HandleRpcs_loop.simps split: option.splits)
  next
    case (Inr w2)
    from Proceed_listening_ports [OF Inr] Cons.IH [of w2] Inr show ?thesis
      by (simp add: loop_Cons del: HandleRpcs_loop.simps split: option.splits)
  qed
qed

subsection \<open>The sample runs, evaluated\<close>

lemmas run_defs = main_def Run_def HandleRpcs_def new_HelloCallData_def new_ByeCallData_def
  emit_def world0_def CallDataBase_def Let_def event_def failed_event_def shutdown_def



lemma world_started_eq:
  "world_started =
     \<lparr>heap = [0 \<mapsto> \<lparr>status = PROCESS, dyn_type = HelloCallData,
                     request_name = [], reply_message = []\<rparr>,
              1 \<mapsto> \<lparr>status = PROCESS, dyn_type = ByeCallData,
                     request_name = [], reply_message = []\<rparr>],
      next_addr = 2, cq = Some ServerCompletionQueue, server = Some Server,
      trace = [AddListeningPort ''0.0.0.0:50051'' InsecureServerCredentials, RegisterService,
               AddCompletionQueue, BuildAndStart,
               Cout (''Server listening on 0.0.0.0:50051'' @ [CHR 0x0A]),
               RequestSayHello 0, RequestSayGoodbye 1]\<rparr>"
  by (simp add: world_started_def run_defs numeral_2_eq_2)


lemma world_finishing_eq:
  "world_finishing =
     \<lparr>heap = [0 \<mapsto> \<lparr>status = FINISH, dyn_type = HelloCallData,
                     request_name = ''World'', reply_message = ''Hello World''\<rparr>,
              1 \<mapsto> \<lparr>status = PROCESS, dyn_type = ByeCallData,
                     request_name = [], reply_message = []\<rparr>,
              2 \<mapsto> \<lparr>status = PROCESS, dyn_type = HelloCallData,
                     request_name = [], reply_message = []\<rparr>],
      next_addr = 3, cq = Some ServerCompletionQueue, server = Some Server,
      trace = [AddListeningPort ''0.0.0.0:50051'' InsecureServerCredentials, RegisterService,
               AddCompletionQueue, BuildAndStart,
               Cout (''Server listening on 0.0.0.0:50051'' @ [CHR 0x0A]),
               RequestSayHello 0, RequestSayGoodbye 1, RequestSayHello 2,
               Finish 0 (HelloReply ''Hello World'') OK 0]\<rparr>"
  apply (simp add: world_finishing_def run_defs Proceed_def Process_def HelloCallData_Process_def)
  apply (simp add: fun_upd_twist eval_nat_numeral)
  done





text \<open>\<open>main\<close> is the loop, started in \<open>world_started\<close>.\<close>

lemma main_eq_loop:
  "main argc argv ins =
     (case HandleRpcs_loop ins world_started of
        Returned u w \<Rightarrow>
          (case ServerImpl_destructor w of Inl f \<Rightarrow> Failed f w | Inr w' \<Rightarrow> Returned 0 w')
      | Failed f w \<Rightarrow> Failed f w
      | Blocked w \<Rightarrow> Blocked w)"
  by (simp add: world_started_eq) (simp add: run_defs numeral_2_eq_2)

lemma final_world_main:
  "final_world (main argc argv ins) = final_world (HandleRpcs_loop ins world_started)"
proof (cases "HandleRpcs_loop ins world_started")
  case (Returned u w)
  with loop_never_returns show ?thesis by blast
next
  case (Failed f w)
  then show ?thesis by (simp add: main_eq_loop)
next
  case (Blocked w)
  then show ?thesis by (simp add: main_eq_loop)
qed






subsection \<open>Runs with \<open>operator new\<close> as an input\<close>

lemma loop_at_Cons:
  "HandleRpcs_loop_at ((n, e) # es) w =
     (case cq w of
        None \<Rightarrow> Failed Null_pointer w
      | Some q \<Rightarrow>
          if \<not> ret e
          then Failed (Abort Assert_Next) ((deliver (received e) w)\<lparr>next_addr := n\<rparr>)
          else if \<not> ok e
          then Failed (Abort Assert_ok) ((deliver (received e) w)\<lparr>next_addr := n\<rparr>)
          else (case Proceed (tag e) ((deliver (received e) w)\<lparr>next_addr := n\<rparr>) of
                  Inl f \<Rightarrow> Failed f ((deliver (received e) w)\<lparr>next_addr := n\<rparr>)
                | Inr w2 \<Rightarrow> HandleRpcs_loop_at es w2))"
  by (cases "cq w") (simp_all add: Let_def)

text \<open>Every run of the first loop is a run of this one; \<open>Run\<close> calls \<open>HandleRpcs\<close> in
  \<open>world_built\<close>, so that every run of \<open>main\<close> is one of \<open>HandleRpcs_at 0 1\<close>.\<close>

lemma deliver_next_addr_same: "(deliver r w)\<lparr>next_addr := next_addr w\<rparr> = deliver r w"
  by (subst deliver_fields(1) [of r w, symmetric]) simp

lemma loop_is_loop_at: "HandleRpcs_loop ins w = HandleRpcs_loop_at (with_next_addr ins w) w"
proof (induction ins arbitrary: w)
  case Nil
  show ?case by simp
next
  case (Cons e es)
  show ?case
  proof (cases "Proceed (tag e) (deliver (received e) w)")
    case (Inl f)
    then show ?thesis
      by (simp add: loop_at_Cons loop_Cons deliver_next_addr_same
          del: HandleRpcs_loop_at.simps HandleRpcs_loop.simps
          cong: option.case_cong)
  next
    case (Inr w2)
    have "final_world (HandleRpcs_loop [e] w) = w2" if "cq w \<noteq> None" "ret e" "ok e"
      using that Inr
      by (auto simp: loop_Cons simp del: HandleRpcs_loop.simps(2) split: option.splits)
    with Inr Cons.IH [of w2] show ?thesis
      by (auto simp: loop_at_Cons loop_Cons deliver_next_addr_same
          simp del: HandleRpcs_loop_at.simps HandleRpcs_loop.simps
          split: option.splits)
  qed
qed

lemma Run_world_built: "Run ins world0 = HandleRpcs ins world_built"
  by (simp add: Run_def world_built_def world0_def emit_def Let_def)

lemma world_started_at_eq:
  "world_started_at a0 a1 =
     world_built\<lparr>heap := [a0 \<mapsto> CallDataBase HelloCallData, a1 \<mapsto> CallDataBase ByeCallData],
       next_addr := Suc a1,
       trace := trace world_built @ [RequestSayHello a0, RequestSayGoodbye a1]\<rparr>"
  by (simp add: world_started_at_def HandleRpcs_at_def new_HelloCallData_def
      new_ByeCallData_def emit_def Let_def world_built_def)

lemma HandleRpcs_at_eq:
  "HandleRpcs_at a0 a1 ins world_built = HandleRpcs_loop_at ins (world_started_at a0 a1)"
  by (simp add: world_started_at_def HandleRpcs_at_def new_HelloCallData_def
      new_ByeCallData_def emit_def Let_def world_built_def)

lemma Run_is_HandleRpcs_at:
  "Run ins world0 = HandleRpcs_at 0 1 (with_next_addr ins world_started) world_built"
proof -
  have "world_started_at 0 1 = world_started"
    by (simp add: world_started_at_eq world_started_eq world_built_def CallDataBase_def)
  moreover have "HandleRpcs ins world_built = HandleRpcs_loop ins world_started"
    by (simp add: HandleRpcs_def world_started_eq world_built_def new_HelloCallData_def
        new_ByeCallData_def emit_def Let_def CallDataBase_def numeral_2_eq_2)
  ultimately show ?thesis
    by (simp add: Run_world_built HandleRpcs_at_eq loop_is_loop_at)
qed

lemma constructed_append [simp]:
  "constructed a (xs @ ys) = constructed a xs + constructed a ys"
  by (induction a xs rule: constructed.induct) simp_all

lemma issued_append [simp]: "issued a (xs @ ys) = issued a xs + issued a ys"
  by (induction a xs rule: issued.induct) simp_all

lemma constructed_request_call [simp]:
  "constructed a (request_call c n # es) = (if a = n then 1 else 0) + constructed a es"
  by (cases c) (simp_all add: request_call_def)

lemma issued_request_call [simp]:
  "issued a (request_call c n # es) = (if a = n then 1 else 0) + issued a es"
  by (cases c) (simp_all add: request_call_def)

lemma calls_due_deliver [simp]: "calls_due (deliver r w) a = calls_due w a"
  by (simp add: calls_due_def)

lemma live_deliver [simp]: "live (deliver r w) a = live w a"
  by (simp add: live_def)

text \<open>One round in which the tag is live and the allocator's address is free: \<open>Proceed\<close>
  succeeds, and the books of every address stay balanced.\<close>

lemma round_at:
  assumes "heap w this \<noteq> None" and "heap w n = None"
  shows "\<exists>w2. Proceed this ((deliver r w)\<lparr>next_addr := n\<rparr>) = Inr w2
           \<and> cq w2 = cq w
           \<and> (\<forall>a. calls_due w2 a + (if a = this then 1 else 0) + 2 * constructed a (trace w)
                  = calls_due w a + 2 * constructed a (trace w2))
           \<and> (\<forall>a. issued a (trace w2) + live w a
                  = issued a (trace w) + live w2 a + (if a = this then 1 else 0))"
proof -
  let ?d = "(deliver r w)\<lparr>next_addr := n\<rparr>"
  from assms(1) obtain obj where obj: "heap ?d this = Some obj"
    by (cases "heap (deliver r w) this") auto
  from assms have ne: "this \<noteq> next_addr ?d"
    by auto
  have st: "map_option status (heap w this) = Some (status obj)"
    using obj deliver_status [of r w this] by simp
  have due: "calls_due w this = due_of (Some (status obj))" "calls_due w n = 0"
      "live w this = 1" "live w n = 0"
    using assms by (simp_all only: calls_due_def live_def st) simp_all
  have other: "calls_due (deliver r w) a = calls_due w a" "live (deliver r w) a = live w a" for a
    by simp_all
  show ?thesis
  proof (cases "status obj")
    case PROCESS
    let ?w2 = "?d\<lparr>heap := (heap ?d)(next_addr ?d \<mapsto> CallDataBase (dyn_type obj),
                this \<mapsto> obj\<lparr>status := FINISH,
                  reply_message := response_text (dyn_type obj) (request_name obj)\<rparr>),
            next_addr := Suc (next_addr ?d),
            trace := trace ?d @ [request_call (dyn_type obj) (next_addr ?d),
              Finish this (response_msg (dyn_type obj) (request_name obj)) OK this]\<rparr>"
    have eq: "Proceed this ?d = Inr ?w2"
      by (rule Proceed_PROCESS [OF obj PROCESS ne])
    have d2: "calls_due ?w2 a = (if a = this then 1 else if a = n then 2 else calls_due w a)"
      "live ?w2 a = (if a = this \<or> a = n then 1 else live w a)" for a
      using other [of a] by (simp_all add: calls_due_def live_def CallDataBase_def)
    have t2: "constructed a (trace ?w2) = constructed a (trace w) + (if a = n then 1 else 0)"
      "issued a (trace ?w2) = issued a (trace w) + (if a = n then 1 else 0)
          + (if a = this then 1 else 0)" for a
      by simp_all
    have "cq ?w2 = cq w" by simp
    moreover have "calls_due ?w2 a + (if a = this then 1 else 0) + 2 * constructed a (trace w)
        = calls_due w a + 2 * constructed a (trace ?w2)" for a
      using ne due PROCESS by (simp only: d2 t2) simp
    moreover have "issued a (trace ?w2) + live w a
        = issued a (trace w) + live ?w2 a + (if a = this then 1 else 0)" for a
      using ne due by (simp only: d2 t2) simp
    ultimately show ?thesis
      using eq by blast
  next
    case FINISH
    let ?w2 = "?d\<lparr>heap := (heap ?d)(this := None)\<rparr>"
    have eq: "Proceed this ?d = Inr ?w2"
      by (rule Proceed_FINISH [OF obj FINISH])
    have d2: "calls_due ?w2 a = (if a = this then 0 else calls_due w a)"
      "live ?w2 a = (if a = this then 0 else live w a)" for a
      using other [of a] by (simp_all add: calls_due_def live_def)
    have "cq ?w2 = cq w" by simp
    moreover have "calls_due ?w2 a + (if a = this then 1 else 0) + 2 * constructed a (trace w)
        = calls_due w a + 2 * constructed a (trace ?w2)" for a
      using due FINISH by (simp only: d2) simp
    moreover have "issued a (trace ?w2) + live w a
        = issued a (trace w) + live ?w2 a + (if a = this then 1 else 0)" for a
      using due by (simp only: d2) simp
    ultimately show ?thesis
      using eq by blast
  qed
qed

text \<open>The whole run, by induction on the rounds; \<open>k\<close> counts the events handled before.\<close>

lemma loop_at_accounts:
  assumes "cq w \<noteq> None" and "disciplined ins w"
    and "\<And>a. k a + calls_due w a = 2 * constructed a (trace w)"
    and "\<And>a. issued a (trace w) = k a + live w a"
  shows "\<exists>w'. HandleRpcs_loop_at ins w = Blocked w'
           \<and> (\<forall>a. k a + count_list (map (tag \<circ> snd) ins) a + calls_due w' a
                  = 2 * constructed a (trace w'))
           \<and> (\<forall>a. issued a (trace w')
                  = k a + count_list (map (tag \<circ> snd) ins) a + live w' a)"
  using assms
proof (induction ins arbitrary: w k)
  case Nil
  then show ?case by auto
next
  case (Cons x es)
  obtain n e where x: "x = (n, e)" by (cases x)
  from Cons.prems(2) have d: "ret e" "ok e" "heap w (tag e) \<noteq> None" "heap w n = None"
    and rest: "disciplined es (final_world (HandleRpcs_loop_at [(n, e)] w))"
    by (simp_all add: x del: HandleRpcs_loop_at.simps)
  from round_at [OF d(3) d(4), of "received e"] obtain w2 where
    step: "Proceed (tag e) ((deliver (received e) w)\<lparr>next_addr := n\<rparr>) = Inr w2"
    and q2: "cq w2 = cq w"
    and due2: "\<And>a. calls_due w2 a + (if a = tag e then 1 else 0) + 2 * constructed a (trace w)
        = calls_due w a + 2 * constructed a (trace w2)"
    and iss2: "\<And>a. issued a (trace w2) + live w a
        = issued a (trace w) + live w2 a + (if a = tag e then 1 else 0)"
    by blast
  from Cons.prems(1) q2 have q: "cq w2 \<noteq> None" by simp
  from Cons.prems(1) d step q have one: "HandleRpcs_loop_at [(n, e)] w = Blocked w2"
    by (auto simp: loop_at_Cons simp del: HandleRpcs_loop_at.simps(2))
  with rest have rest2: "disciplined es w2" by simp
  let ?k = "\<lambda>a. k a + (if a = tag e then 1 else 0)"
  have a1: "?k a + calls_due w2 a = 2 * constructed a (trace w2)" for a
    using Cons.prems(3) [of a] due2 [of a] by simp
  have a2: "issued a (trace w2) = ?k a + live w2 a" for a
    using Cons.prems(4) [of a] iss2 [of a] by simp
  from Cons.IH [OF q rest2 a1 a2] obtain w' where
    w': "HandleRpcs_loop_at es w2 = Blocked w'"
    "\<And>a. ?k a + count_list (map (tag \<circ> snd) es) a + calls_due w' a
        = 2 * constructed a (trace w')"
    "\<And>a. issued a (trace w') = ?k a + count_list (map (tag \<circ> snd) es) a + live w' a"
    by blast
  from Cons.prems(1) d step w'(1) have "HandleRpcs_loop_at (x # es) w = Blocked w'"
    by (auto simp: x loop_at_Cons simp del: HandleRpcs_loop_at.simps(2))
  moreover have "k a + count_list (map (tag \<circ> snd) (x # es)) a + calls_due w' a
      = 2 * constructed a (trace w')" for a
    using w'(2) [of a] by (auto simp: x)
  moreover have "issued a (trace w')
      = k a + count_list (map (tag \<circ> snd) (x # es)) a + live w' a" for a
    using w'(3) [of a] by (auto simp: x)
  ultimately show ?case by blast
qed

text \<open>A disciplined run is disciplined up to each of its rounds, and reaches each of them.\<close>

lemma disciplined_append:
  assumes "cq w \<noteq> None" and "disciplined (pre @ rest) w"
  shows "\<exists>v. HandleRpcs_loop_at pre w = Blocked v \<and> cq v \<noteq> None
           \<and> disciplined pre w \<and> disciplined rest v"
  using assms
proof (induction pre arbitrary: w)
  case Nil
  then show ?case by auto
next
  case (Cons x pre)
  obtain n e where x: "x = (n, e)" by (cases x)
  from Cons.prems(2) have d: "ret e" "ok e" "heap w (tag e) \<noteq> None" "heap w n = None"
    and rest: "disciplined (pre @ rest) (final_world (HandleRpcs_loop_at [(n, e)] w))"
    by (simp_all add: x del: HandleRpcs_loop_at.simps)
  from round_at [OF d(3) d(4), of "received e"] obtain w2 where
    step: "Proceed (tag e) ((deliver (received e) w)\<lparr>next_addr := n\<rparr>) = Inr w2"
    and q2: "cq w2 = cq w"
    by blast
  from Cons.prems(1) q2 have q: "cq w2 \<noteq> None" by simp
  from Cons.prems(1) d step q have one: "HandleRpcs_loop_at [(n, e)] w = Blocked w2"
    by (auto simp: loop_at_Cons simp del: HandleRpcs_loop_at.simps(2))
  with rest have "disciplined (pre @ rest) w2" by simp
  from Cons.IH [OF q this] obtain v where
    v: "HandleRpcs_loop_at pre w2 = Blocked v" "cq v \<noteq> None"
    "disciplined pre w2" "disciplined rest v"
    by blast
  from Cons.prems(1) d step v(1) have "HandleRpcs_loop_at (x # pre) w = Blocked v"
    by (auto simp: x loop_at_Cons simp del: HandleRpcs_loop_at.simps(2))
  moreover from d v(3) one have "disciplined (x # pre) w"
    by (simp add: x del: HandleRpcs_loop_at.simps)
  ultimately show ?case
    using v(2,4) by blast
qed

lemma due_of_parity:
  assumes "k + due_of (Some s) = 2 * c"
  shows "s = PROCESS \<longleftrightarrow> even k"
proof (cases s)
  case PROCESS
  with assms have "k + 2 = 2 * c" by simp
  then have "even (k + 2)" by simp
  with PROCESS show ?thesis by simp
next
  case FINISH
  with assms have "Suc k = 2 * c" by simp
  then have "even (Suc k)" by simp
  with FINISH show ?thesis by simp
qed

lemma reuse_run_disciplined: "disciplined reuse_run (world_started_at 0 1)"
  by code_simp

lemma reuse_run_count: "count_list (map (tag \<circ> snd) reuse_run) 0 = 3"
  by (simp add: reuse_run_def event_def)

subsection \<open>The call state machine\<close>



text \<open>
  Claim C2. \<open>Proceed\<close> on an object in state \<open>FINISH\<close> deletes it and changes nothing else:
  the action is \<open>Release\<close>. Release happens from no other state: whenever a call of
  \<open>Proceed\<close>, or one round of the dispatcher loop, makes a live object disappear, that object
  is the one the call was made on, and it was in state \<open>FINISH\<close>.
\<close>

theorem release_only_in_FINISH:
  "(heap w this = Some obj \<and> status obj = FINISH \<longrightarrow>
      advance this w = Inr (Release, w\<lparr>heap := (heap w)(this := None)\<rparr>))
   \<and> (Proceed this w = Inr w' \<and> heap w a = Some old \<and> heap w' a = None \<longrightarrow>
        a = this \<and> status old = FINISH)
   \<and> (HandleRpcs_loop [e] w = Blocked w'' \<and> heap w a = Some old \<and> heap w'' a = None \<longrightarrow>
        a = tag e \<and> status old = FINISH)"
proof (intro conjI impI)
  assume "heap w this = Some obj \<and> status obj = FINISH"
  then show "advance this w = Inr (Release, w\<lparr>heap := (heap w)(this := None)\<rparr>)"
    by (simp add: advance_def Proceed_FINISH)
next
  assume "Proceed this w = Inr w' \<and> heap w a = Some old \<and> heap w' a = None"
  then show "a = this" "status old = FINISH"
    using Proceed_released by blast+
next
  assume h: "HandleRpcs_loop [e] w = Blocked w'' \<and> heap w a = Some old \<and> heap w'' a = None"
  let ?w1 = "deliver (received e) w"
  from h have "HandleRpcs_loop [e] w = Blocked w''" ..
  then obtain w2 where "Proceed (tag e) ?w1 = Inr w2" and "HandleRpcs_loop [] w2 = Blocked w''"
    by (rule loop_Cons_Blocked)
  then have step: "Proceed (tag e) ?w1 = Inr w''"
    by (simp del: HandleRpcs_loop.simps)
  from h have "map_option status (heap ?w1 a) = Some (status old)"
    by simp
  then obtain old1 where old1: "heap ?w1 a = Some old1" "status old1 = status old"
    by (auto simp del: deliver_status)
  from Proceed_released [OF step old1(1)] h old1(2)
  show "a = tag e" "status old = FINISH"
    by simp_all
qed

theorem release_only_in_FINISH_witness:
  "advance 0 world_finishing
     = Inr (Release, world_finishing\<lparr>heap := (heap world_finishing)(0 := None)\<rparr>)
   \<and> Proceed 0 world_finishing
       = Inr (world_finishing\<lparr>heap := (heap world_finishing)(0 := None)\<rparr>)
   \<and> HandleRpcs_loop [event [] 0] world_finishing
       = Blocked (world_finishing\<lparr>heap := (heap world_finishing)(0 := None)\<rparr>)
   \<and> map_option status (heap world_finishing 0) = Some FINISH"
proof -
  let ?obj = "\<lparr>status = FINISH, dyn_type = HelloCallData,
                request_name = ''World'', reply_message = ''Hello World''\<rparr>"
  let ?w' = "world_finishing\<lparr>heap := (heap world_finishing)(0 := None)\<rparr>"
  have h: "heap world_finishing 0 = Some ?obj" "status ?obj = FINISH"
      "cq world_finishing = Some ServerCompletionQueue"
    by (simp_all add: world_finishing_eq)
  have p: "Proceed 0 world_finishing = Inr ?w'"
    by (rule Proceed_FINISH [OF h(1) h(2)])
  have l: "HandleRpcs_loop [event [] 0] world_finishing = Blocked ?w'"
    by (simp add: loop_Cons h(3) event_def p)
  have g: "heap ?w' 0 = None" by simp
  from release_only_in_FINISH [of world_finishing 0 ?obj ?w' 0 ?obj "event [] 0" ?w'] h p l g
  show ?thesis
    by (simp add: event_def)
qed

subsection \<open>The dispatcher\<close>

text \<open>
  Claim C3, as stated, fails: when \<open>Next\<close> reports that the queue is shutting down, the
  dispatcher does not return. \<open>GPR_ASSERT(cq_->Next(&tag, &ok))\<close> fails and the process
  aborts. The run below starts the server and receives the shutdown indication as its first
  result of \<open>Next\<close>.
\<close>

theorem shutdown_returns_counterexample:
  "fault_of (main 1 [''greeter_async_server''] [shutdown]) = Some (Abort Assert_Next)
   \<and> \<not> returned (main 1 [''greeter_async_server''] [shutdown])"
  by (simp add: main_eq_loop loop_Cons shutdown_def world_started_eq)

text \<open>
  Claim C3, amended. When \<open>Next\<close> returns false, the assertion on its result fails and the
  process aborts in the state in which \<open>Next\<close> returned. The dispatcher loop returns on no
  input at all, and so neither does \<open>main\<close>.
\<close>

theorem shutdown_aborts:
  assumes "cq w = Some q" and "\<not> ret e"
  shows "HandleRpcs_loop (e # es) w = Failed (Abort Assert_Next) (deliver (received e) w)
         \<and> \<not> returned (HandleRpcs_loop ins w0)
         \<and> \<not> returned (main argc argv ins)"
proof -
  have "\<not> returned (HandleRpcs_loop ins w0)" for w0
    using loop_never_returns [of ins w0] by (cases "HandleRpcs_loop ins w0") auto
  moreover from this [of world_started] have "\<not> returned (main argc argv ins)"
    by (cases "HandleRpcs_loop ins world_started") (simp_all add: main_eq_loop)
  ultimately show ?thesis
    using assms by (simp add: loop_Cons)
qed

theorem shutdown_aborts_witness:
  "HandleRpcs_loop [shutdown] world_started = Failed (Abort Assert_Next) world_started
   \<and> \<not> returned (HandleRpcs_loop [shutdown] world_started)
   \<and> \<not> returned (main 1 [''greeter_async_server''] [shutdown])"
proof -
  have h: "cq world_started = Some ServerCompletionQueue" "\<not> ret shutdown"
    by (simp_all add: world_started_eq shutdown_def)
  from shutdown_aborts [OF h, of "[]" "[shutdown]" world_started 1 "[''greeter_async_server'']"]
  show ?thesis
    by (simp add: shutdown_def)
qed

text \<open>
  Claim C4. When \<open>Next\<close> delivers an event whose flag \<open>ok\<close> is false, \<open>GPR_ASSERT(ok)\<close> fails
  and the process aborts before \<open>Proceed\<close> is called: every object has the state it had
  when \<open>Next\<close> was called, none is allocated or released, and the runtime has been asked
  nothing.
\<close>

theorem failed_event_aborts:
  assumes "cq w = Some q" and "ret e" and "\<not> ok e"
  shows "HandleRpcs_loop (e # es) w = Failed (Abort Assert_ok) (deliver (received e) w)
         \<and> map_option status (heap (deliver (received e) w) a) = map_option status (heap w a)
         \<and> next_addr (deliver (received e) w) = next_addr w
         \<and> trace (deliver (received e) w) = trace w"
  using assms by (simp add: loop_Cons)

theorem failed_event_aborts_witness:
  "HandleRpcs_loop [failed_event 0] world_finishing = Failed (Abort Assert_ok) world_finishing
   \<and> map_option status (heap world_finishing 0) = Some FINISH"
proof -
  have h: "cq world_finishing = Some ServerCompletionQueue" "ret (failed_event 0)"
      "\<not> ok (failed_event 0)"
    by (simp_all add: world_finishing_eq failed_event_def)
  from failed_event_aborts [OF h, of "[]" 0]
  show ?thesis
    by (simp add: failed_event_def world_finishing_eq)
qed

subsection \<open>Acceptors and lifetimes\<close>




text \<open>
  Claim C6. Let the two initial objects stand at any two different addresses, let the queue
  deliver successful events whose tags are addresses of live objects, and let \<open>operator new\<close>
  answer with any address at which no object is live, a freed one included. Then the
  dispatcher handles every event: the run is still waiting in \<open>Next\<close> when the input ends.
  At every address the events handled and the calls the live object has still to receive
  (two in \<open>PROCESS\<close>, one in \<open>FINISH\<close>) add up to twice the number of objects constructed
  there: a released object has received exactly two calls, a live one none or one, and none
  receives a third. The operations requested with an address as tag are the events handled
  there, plus the one still outstanding when an object is live. And at every round of the
  run, the tagged object is in \<open>PROCESS\<close> when the events handled at its address before are
  even in number, and in \<open>FINISH\<close> when they are odd: the events at an address find the
  objects there alternately in \<open>PROCESS\<close> (the call that leaves the object in \<open>FINISH\<close>, by
  C1) and in \<open>FINISH\<close> (the call that releases it, by C2), so that every object receives
  its two calls in this order and no state is skipped.
\<close>

theorem two_calls_per_instance:
  assumes "a0 \<noteq> a1" and "disciplined ins (world_started_at a0 a1)"
  shows "(\<exists>w. HandleRpcs_at a0 a1 ins world_built = Blocked w
           \<and> (\<forall>a. count_list (map (tag \<circ> snd) ins) a + calls_due w a
                  = 2 * constructed a (trace w))
           \<and> (\<forall>a. issued a (trace w) = count_list (map (tag \<circ> snd) ins) a + live w a))
         \<and> (\<forall>pre n e post. ins = pre @ (n, e) # post \<longrightarrow>
              (\<exists>v obj. HandleRpcs_at a0 a1 pre world_built = Blocked v
                 \<and> heap v (tag e) = Some obj
                 \<and> (status obj = PROCESS
                      \<longleftrightarrow> even (count_list (map (tag \<circ> snd) pre) (tag e)))))"
proof -
  let ?w = "world_started_at a0 a1"
  have q: "cq ?w \<noteq> None"
    by (simp add: world_started_at_eq) (simp add: world_built_def)
  have b1: "0 + calls_due ?w a = 2 * constructed a (trace ?w)" for a
    using assms(1) by (simp add: world_started_at_eq calls_due_def CallDataBase_def)
      (simp add: world_built_def)
  have b2: "issued a (trace ?w) = 0 + live ?w a" for a
    using assms(1) by (simp add: world_started_at_eq live_def) (simp add: world_built_def)
  have whole: "\<exists>w. HandleRpcs_at a0 a1 ins world_built = Blocked w
      \<and> (\<forall>a. count_list (map (tag \<circ> snd) ins) a + calls_due w a
             = 2 * constructed a (trace w))
      \<and> (\<forall>a. issued a (trace w) = count_list (map (tag \<circ> snd) ins) a + live w a)"
    using loop_at_accounts [OF q assms(2), of "\<lambda>a. 0", OF b1 b2]
    by (simp add: HandleRpcs_at_eq)
  have part: "\<exists>v obj. HandleRpcs_at a0 a1 pre world_built = Blocked v
      \<and> heap v (tag e) = Some obj
      \<and> (status obj = PROCESS \<longleftrightarrow> even (count_list (map (tag \<circ> snd) pre) (tag e)))"
    if split: "ins = pre @ (n, e) # post" for pre n e post
  proof -
    from assms(2) split have "disciplined (pre @ (n, e) # post) ?w" by simp
    from disciplined_append [OF q this] obtain v where
      v: "HandleRpcs_loop_at pre ?w = Blocked v" "disciplined pre ?w"
      "disciplined ((n, e) # post) v"
      by blast
    from v(3) obtain obj where obj: "heap v (tag e) = Some obj"
      by (auto simp del: HandleRpcs_loop_at.simps)
    from loop_at_accounts [OF q v(2), of "\<lambda>a. 0", OF b1 b2] v(1)
    have "count_list (map (tag \<circ> snd) pre) (tag e) + calls_due v (tag e)
        = 2 * constructed (tag e) (trace v)"
      by simp
    with obj have "count_list (map (tag \<circ> snd) pre) (tag e) + due_of (Some (status obj))
        = 2 * constructed (tag e) (trace v)"
      by (simp add: calls_due_def)
    from due_of_parity [OF this] v(1) obj show ?thesis
      by (simp add: HandleRpcs_at_eq)
  qed
  from whole part show ?thesis
    by blast
qed

theorem two_calls_per_instance_witness:
  "(\<exists>w. HandleRpcs_at 0 1 reuse_run world_built = Blocked w
      \<and> 3 + calls_due w 0 = 2 * constructed 0 (trace w)
      \<and> issued 0 (trace w) = 3 + live w 0
      \<and> calls_due w 0 = 1 \<and> constructed 0 (trace w) = 2)
   \<and> (\<exists>v obj. HandleRpcs_at 0 1 (take 4 reuse_run) world_built = Blocked v
         \<and> heap v 0 = Some obj \<and> status obj = PROCESS
         \<and> count_list (map (tag \<circ> snd) (take 4 reuse_run)) 0 = 2)"
proof -
  have h: "(0::addr) \<noteq> 1" "disciplined reuse_run (world_started_at 0 1)"
    by (simp_all add: reuse_run_disciplined del: One_nat_def)
  note inst = two_calls_per_instance [OF h]
  from inst obtain w where
    w: "HandleRpcs_at 0 1 reuse_run world_built = Blocked w"
    "\<And>a. count_list (map (tag \<circ> snd) reuse_run) a + calls_due w a
        = 2 * constructed a (trace w)"
    "\<And>a. issued a (trace w) = count_list (map (tag \<circ> snd) reuse_run) a + live w a"
    by blast
  have "calls_due (final_world (HandleRpcs_at 0 1 reuse_run world_built)) 0 = 1"
    by code_simp
  with w(1) have "calls_due w 0 = 1" by simp
  with w(2) [of 0] w(3) [of 0] w(1)
  have first: "\<exists>w. HandleRpcs_at 0 1 reuse_run world_built = Blocked w
      \<and> 3 + calls_due w 0 = 2 * constructed 0 (trace w)
      \<and> issued 0 (trace w) = 3 + live w 0
      \<and> calls_due w 0 = 1 \<and> constructed 0 (trace w) = 2"
    by (simp add: reuse_run_count)
  have split: "reuse_run = take 4 reuse_run @ (4, event [(0, ''Third'')] 0) # []"
    by (simp add: reuse_run_def)
  have c: "count_list (map (tag \<circ> snd) (take 4 reuse_run)) 0 = 2"
    "tag (event [(0, ''Third'')] 0) = 0"
    by (simp_all add: reuse_run_def event_def)
  from inst split obtain v obj where
    "HandleRpcs_at 0 1 (take 4 reuse_run) world_built = Blocked v"
    "heap v (tag (event [(0, ''Third'')] 0)) = Some obj"
    "status obj = PROCESS
      \<longleftrightarrow> even (count_list (map (tag \<circ> snd) (take 4 reuse_run))
            (tag (event [(0, ''Third'')] 0)))"
    by blast
  with c have "\<exists>v obj. HandleRpcs_at 0 1 (take 4 reuse_run) world_built = Blocked v
      \<and> heap v 0 = Some obj \<and> status obj = PROCESS
      \<and> count_list (map (tag \<circ> snd) (take 4 reuse_run)) 0 = 2"
    by simp
  with first show ?thesis
    by blast
qed

subsection \<open>The replies\<close>





subsection \<open>Startup and shutdown\<close>

text \<open>
  Claim C9. The destructor of \<open>ServerImpl\<close>, run on a server that has been started, makes
  exactly two calls into the runtime: it shuts the server down, and after that the
  completion queue.
\<close>

theorem server_shutdown_before_queue:
  assumes "server w = Some s" and "cq w = Some q"
  shows "\<exists>w'. ServerImpl_destructor w = Inr w'
           \<and> trace w' = trace w @ [Server_Shutdown, CompletionQueue_Shutdown]"
  using assms by (simp add: ServerImpl_destructor_def emit_def)

theorem server_shutdown_before_queue_witness:
  "\<exists>w'. ServerImpl_destructor world_started = Inr w'
      \<and> trace w' = trace world_started @ [Server_Shutdown, CompletionQueue_Shutdown]"
proof -
  have h: "server world_started = Some Server" "cq world_started = Some ServerCompletionQueue"
    by (simp_all add: world_started_eq)
  from server_shutdown_before_queue [OF h] show ?thesis .
qed

text \<open>
  Claim C10. \<open>main\<close> does not look at \<open>argc\<close> and \<open>argv\<close>: on the same results of \<open>Next\<close>,
  two runs with different arguments end alike. In every run the builder is asked for one
  listening port, \<open>0.0.0.0:50051\<close>, with insecure credentials.
\<close>

theorem main_ignores_arguments:
  "main argc argv ins = main argc' argv' ins
   \<and> listening_ports (trace (final_world (main argc argv ins)))
       = [(''0.0.0.0:50051'', InsecureServerCredentials)]"
proof -
  have "listening_ports (trace world_started) = [(''0.0.0.0:50051'', InsecureServerCredentials)]"
    by (simp add: world_started_eq)
  then show ?thesis
    by (simp add: final_world_main loop_listening_ports) (simp add: main_def)
qed

theorem main_ignores_arguments_witness:
  "main 3 [''greeter_async_server'', ''--address'', ''127.0.0.1:8080''] [shutdown]
     = main 1 [''greeter_async_server''] [shutdown]
   \<and> listening_ports (trace (final_world (main 3
        [''greeter_async_server'', ''--address'', ''127.0.0.1:8080''] [shutdown])))
       = [(''0.0.0.0:50051'', InsecureServerCredentials)]"
  by (rule main_ignores_arguments)

end
